theory Spec2Isabelle
  imports Main
begin

section \<open>Behaviour tree: data model\<close>

text \<open>
  \<^verbatim>\<open>class Status(Enum)\<close>: the three status codes. Members of an enumeration are
  compared by identity, so \<^verbatim>\<open>status == Status.SUCCESS\<close> is equality of constructors.
\<close>

datatype Status = SUCCESS | RUNNING | FAIL

text \<open>
  Exceptions are values. \<open>IndexError\<close> and \<open>OverflowError\<close> are the two builtin
  exceptions a list operation of the interpreter can end in, \<open>AttributeError\<close> is
  what a method call on an object without that method ends in, and \<open>UserError\<close>
  stands for whatever else a supplied callable raises (its argument tells two such
  exceptions apart).
\<close>

datatype exn = IndexError | OverflowError | AttributeError | UserError string

text \<open>
  The values a predicate can hand back to \<^verbatim>\<open>if self.__condition():\<close>. The annotation
  asks for a \<^verbatim>\<open>bool\<close>, the interpreter accepts any object and tests its truth value:
  \<^verbatim>\<open>None\<close>, \<^verbatim>\<open>False\<close>, zero, the empty string and the empty list are false,
  everything else is true.
\<close>

datatype pyval = PyNone | PyBool bool | PyInt int | PyStr string | PyList "pyval list"

fun truthy :: "pyval \<Rightarrow> bool" where
  "truthy PyNone = False"
| "truthy (PyBool b) = b"
| "truthy (PyInt i) = (i \<noteq> 0)"
| "truthy (PyStr s) = (s \<noteq> [])"
| "truthy (PyList vs) = (vs \<noteq> [])"

text \<open>
  The supplied callables are opaque and may have side effects. Everything outside the
  tree that they can read or change is the world \<open>'w\<close>; a call takes the world, hands back
  the world it leaves behind, and either returns a value or raises.
\<close>

type_synonym 'w predicate = "'w \<Rightarrow> (exn + pyval) \<times> 'w"
type_synonym 'w operation = "'w \<Rightarrow> (exn + Status) \<times> 'w"

text \<open>
  The four concrete classes of \<^verbatim>\<open>Node\<close>. A constructor holds the attributes of the
  object: \<^verbatim>\<open>_children\<close> for the two composites, \<^verbatim>\<open>__condition\<close> for a condition,
  \<^verbatim>\<open>_status\<close> and \<^verbatim>\<open>__action\<close> for an action.
\<close>

datatype 'w Node =
    Fallback "'w Node list"
  | Sequence "'w Node list"
  | Condition "'w predicate"
  | Action Status "'w operation"

section \<open>Evaluation\<close>

text \<open>
  A call of \<^verbatim>\<open>run\<close> ends in a status or in an exception, and leaves behind the node
  (the \<^verbatim>\<open>_status\<close> of the actions below it may have been overwritten) and the world.
\<close>

fun run :: "'w Node \<Rightarrow> 'w \<Rightarrow> (exn + Status) \<times> 'w Node \<times> 'w"
  and fallback_loop :: "'w Node list \<Rightarrow> 'w \<Rightarrow> (exn + Status) \<times> 'w Node list \<times> 'w"
  and sequence_loop :: "'w Node list \<Rightarrow> 'w \<Rightarrow> (exn + Status) \<times> 'w Node list \<times> 'w"
where
  "run (Fallback cs) w =
     (case fallback_loop cs w of (r, cs', w') \<Rightarrow> (r, Fallback cs', w'))"
| "run (Sequence cs) w =
     (case sequence_loop cs w of (r, cs', w') \<Rightarrow> (r, Sequence cs', w'))"
| "run (Condition p) w =
     (case p w of
        (Inl e, w') \<Rightarrow> (Inl e, Condition p, w')
      | (Inr v, w') \<Rightarrow> (if truthy v then (Inr SUCCESS, Condition p, w')
                       else (Inr FAIL, Condition p, w')))"
| "run (Action st f) w =
     (case f w of
        (Inl e, w') \<Rightarrow> (Inl e, Action st f, w')
      | (Inr s, w') \<Rightarrow> (Inr s, Action s f, w'))"
| "fallback_loop [] w = (Inr FAIL, [], w)"
| "fallback_loop (child # rest) w =
     (case run child w of
        (Inl e, child', w') \<Rightarrow> (Inl e, child' # rest, w')
      | (Inr status, child', w') \<Rightarrow>
          if status = SUCCESS then (Inr SUCCESS, child' # rest, w')
          else if status = RUNNING then (Inr RUNNING, child' # rest, w')
          else (case fallback_loop rest w' of
                  (r, rest', w'') \<Rightarrow> (r, child' # rest', w'')))"
| "sequence_loop [] w = (Inr SUCCESS, [], w)"
| "sequence_loop (child # rest) w =
     (case run child w of
        (Inl e, child', w') \<Rightarrow> (Inl e, child' # rest, w')
      | (Inr status, child', w') \<Rightarrow>
          if status = FAIL then (Inr FAIL, child' # rest, w')
          else if status = RUNNING then (Inr RUNNING, child' # rest, w')
          else (case sequence_loop rest w' of
                  (r, rest', w'') \<Rightarrow> (r, child' # rest', w'')))"

section \<open>Construction\<close>

text \<open>
  The \<^verbatim>\<open>__init__\<close> methods: a composite starts with no children, an action with
  \<^verbatim>\<open>_status = Status.RUNNING\<close>.
\<close>

definition Fallback_init :: "'w Node" where
  "Fallback_init = Fallback []"

definition Sequence_init :: "'w Node" where
  "Sequence_init = Sequence []"

definition Condition_init :: "'w predicate \<Rightarrow> 'w Node" where
  "Condition_init condition = Condition condition"

definition Action_init :: "'w operation \<Rightarrow> 'w Node" where
  "Action_init action = Action RUNNING action"

text \<open>
  The two list methods the composites call. \<^verbatim>\<open>list.append\<close> puts the element last.
  \<^verbatim>\<open>list.insert\<close> of the interpreter first converts the index to the machine type
  \<^verbatim>\<open>Py_ssize_t\<close> (64 bits here) and raises \<^verbatim>\<open>OverflowError\<close> when it does not fit;
  then a negative index has the length added and is raised to 0 if still negative, an
  index beyond the length is lowered to the length, and the element is put there.
  \<^verbatim>\<open>[].insert(2**63, x)\<close> ends in "OverflowError: Python int too large to convert to
  C ssize_t", \<^verbatim>\<open>['A', 'B'].insert(5, 'C')\<close> gives \<^verbatim>\<open>['A', 'B', 'C']\<close>.
\<close>

definition PY_SSIZE_T_MAX :: int where
  "PY_SSIZE_T_MAX = 2 ^ 63 - 1"

definition PY_SSIZE_T_MIN :: int where
  "PY_SSIZE_T_MIN = - PY_SSIZE_T_MAX - 1"

definition list_append :: "'a list \<Rightarrow> 'a \<Rightarrow> 'a list" where
  "list_append xs x = xs @ [x]"

definition list_insert :: "'a list \<Rightarrow> int \<Rightarrow> 'a \<Rightarrow> exn + 'a list" where
  "list_insert xs index x =
     (if index < PY_SSIZE_T_MIN \<or> PY_SSIZE_T_MAX < index then Inl OverflowError
      else
        let n = int (length xs);
            shifted = (if index < 0 then (if index + n < 0 then 0 else index + n) else index);
            pos = (if n < shifted then n else shifted)
        in Inr (take (nat pos) xs @ x # drop (nat pos) xs))"

text \<open>
  The methods of \<^verbatim>\<open>CompositeNode\<close>. A call yields what it returns (or raises) and the
  receiver as the call leaves it; \<^verbatim>\<open>return self\<close> hands back the receiver, so the
  value returned is the receiver in the state the call leaves it in. The two leaf
  classes do not inherit from \<^verbatim>\<open>CompositeNode\<close>: the attribute lookup fails there
  and nothing is changed.
\<close>

fun add_child :: "'w Node \<Rightarrow> 'w Node \<Rightarrow> (exn + 'w Node) \<times> 'w Node" where
  "add_child (Fallback cs) child =
     (let self = Fallback (list_append cs child) in (Inr self, self))"
| "add_child (Sequence cs) child =
     (let self = Sequence (list_append cs child) in (Inr self, self))"
| "add_child (Condition p) child = (Inl AttributeError, Condition p)"
| "add_child (Action st f) child = (Inl AttributeError, Action st f)"

fun insert_child :: "'w Node \<Rightarrow> int \<Rightarrow> 'w Node \<Rightarrow> (exn + 'w Node) \<times> 'w Node" where
  "insert_child (Fallback cs) index child =
     (case list_insert cs index child of
        Inl e \<Rightarrow> (Inl e, Fallback cs)
      | Inr cs' \<Rightarrow> (let self = Fallback cs' in (Inr self, self)))"
| "insert_child (Sequence cs) index child =
     (case list_insert cs index child of
        Inl e \<Rightarrow> (Inl e, Sequence cs)
      | Inr cs' \<Rightarrow> (let self = Sequence cs' in (Inr self, self)))"
| "insert_child (Condition p) index child = (Inl AttributeError, Condition p)"
| "insert_child (Action st f) index child = (Inl AttributeError, Action st f)"

section \<open>Vocabulary of the properties\<close>

text \<open>The composite classes, and the child list of a node (a leaf has none).\<close>

fun is_composite :: "'w Node \<Rightarrow> bool" where
  "is_composite (Fallback cs) = True"
| "is_composite (Sequence cs) = True"
| "is_composite (Condition p) = False"
| "is_composite (Action st f) = False"

fun children :: "'w Node \<Rightarrow> 'w Node list" where
  "children (Fallback cs) = cs"
| "children (Sequence cs) = cs"
| "children (Condition p) = []"
| "children (Action st f) = []"

text \<open>Two nodes are of the same class.\<close>

fun same_class :: "'w Node \<Rightarrow> 'w Node \<Rightarrow> bool" where
  "same_class (Fallback cs) (Fallback ds) = True"
| "same_class (Sequence cs) (Sequence ds) = True"
| "same_class (Condition p) (Condition q) = True"
| "same_class (Action st f) (Action su g) = True"
| "same_class a b = False"

text \<open>
  Running every node of a list in turn, whatever each one returns, each in the world
  its predecessor left: the statuses, the nodes afterwards and the last world. This is
  "the children evaluated strictly in order" without any policy on top.
\<close>

fun run_each :: "'w Node list \<Rightarrow> 'w \<Rightarrow> (exn + Status) list \<times> 'w Node list \<times> 'w" where
  "run_each [] w = ([], [], w)"
| "run_each (c # cs) w =
     (case run c w of (r, c', w') \<Rightarrow>
        (case run_each cs w' of (rs, cs', w'') \<Rightarrow> (r # rs, c' # cs', w'')))"

text \<open>
  A node with the cached \<^verbatim>\<open>_status\<close> of every action below it put back to its
  initial value. Two states of one tree differ in nothing else, so they are states of
  the same tree (the same objects in the same places) exactly when this agrees.
\<close>

fun forget_status :: "'w Node \<Rightarrow> 'w Node" where
  "forget_status (Fallback cs) = Fallback (map forget_status cs)"
| "forget_status (Sequence cs) = Sequence (map forget_status cs)"
| "forget_status (Condition p) = Condition p"
| "forget_status (Action st f) = Action RUNNING f"

text \<open>
  Call-count instrumentation, as a test would do it: every callable of the tree is
  wrapped so that each call appends to a log whether it returned or what it raised.
  The wrapped tree is run by the same \<open>run\<close>; \<open>call_log\<close> is the log of one run.
\<close>

datatype event = Returned | Raised exn

fun logged :: "('w \<Rightarrow> (exn + 'a) \<times> 'w) \<Rightarrow> 'w \<times> event list \<Rightarrow> (exn + 'a) \<times> 'w \<times> event list" where
  "logged f (w, log) =
     (case f w of
        (Inl e, w') \<Rightarrow> (Inl e, w', log @ [Raised e])
      | (Inr v, w') \<Rightarrow> (Inr v, w', log @ [Returned]))"

fun instrument :: "'w Node \<Rightarrow> ('w \<times> event list) Node" where
  "instrument (Fallback cs) = Fallback (map instrument cs)"
| "instrument (Sequence cs) = Sequence (map instrument cs)"
| "instrument (Condition p) = Condition (logged p)"
| "instrument (Action st f) = Action st (logged f)"

definition call_log :: "'w Node \<Rightarrow> 'w \<Rightarrow> event list" where
  "call_log t w = snd (snd (snd (run (instrument t) (w, []))))"

text \<open>
  A log is well ended for a result when every call but the last returned, and the last
  one raised exactly the exception the result carries, if it carries one.
\<close>

fun well_ended :: "exn + Status \<Rightarrow> event list \<Rightarrow> bool" where
  "well_ended (Inr s) evs = list_all (\<lambda>x. x = Returned) evs"
| "well_ended (Inl e) evs =
     (evs \<noteq> [] \<and> last evs = Raised e \<and> list_all (\<lambda>x. x = Returned) (butlast evs))"

text \<open>
  The log \<open>l'\<close> is the log \<open>l\<close> with the calls of one run added, well ended for
  the result of that run.
\<close>

definition inst_ok :: "exn + Status \<Rightarrow> event list \<Rightarrow> event list \<Rightarrow> bool" where
  "inst_ok r l l' = (\<exists>evs. l' = l @ evs \<and> well_ended r evs)"

section \<open>Sample callables\<close>

text \<open>
  Callables over a world that is the list of the names of the callables called so far.
\<close>

definition cond_true :: "string list predicate" where
  "cond_true w = (Inr (PyBool True), w @ [''cond_true''])"

definition cond_false :: "string list predicate" where
  "cond_false w = (Inr (PyBool False), w @ [''cond_false''])"

definition cond_seven :: "string list predicate" where
  "cond_seven w = (Inr (PyInt 7), w @ [''cond_seven''])"

definition cond_raise :: "string list predicate" where
  "cond_raise w = (Inl (UserError ''boom''), w @ [''cond_raise''])"

definition act_success :: "string list operation" where
  "act_success w = (Inr SUCCESS, w @ [''act_success''])"

definition act_fail :: "string list operation" where
  "act_fail w = (Inr FAIL, w @ [''act_fail''])"

definition act_running :: "string list operation" where
  "act_running w = (Inr RUNNING, w @ [''act_running''])"

definition act_progress :: "string list operation" where
  "act_progress w =
     (Inr (if ''act_progress'' \<in> set w then SUCCESS else RUNNING), w @ [''act_progress''])"

definition act_raise :: "string list operation" where
  "act_raise w = (Inl (UserError ''crash''), w @ [''act_raise''])"

definition node_A :: "string list Node" where
  "node_A = Condition cond_true"

definition node_B :: "string list Node" where
  "node_B = Condition cond_false"

definition node_C :: "string list Node" where
  "node_C = Action RUNNING act_success"

section \<open>The traversal of the composites\<close>

text \<open>
  A prefix of children that all return \<^verbatim>\<open>FAIL\<close> is passed over by the loop of a
  fallback, one that all return \<^verbatim>\<open>SUCCESS\<close> by the loop of a sequence: the loop
  goes on with the rest in the world the prefix left.
\<close>

lemma fallback_loop_skip:
  "run_each pre w = (rs, pre', w1) \<Longrightarrow> \<forall>r\<in>set rs. r = Inr FAIL \<Longrightarrow>
   fallback_loop (pre @ rest) w =
     (case fallback_loop rest w1 of (r, rest', w2) \<Rightarrow> (r, pre' @ rest', w2))"
  by (induction pre arbitrary: w rs pre') (auto split: prod.splits sum.splits)

lemma sequence_loop_skip:
  "run_each pre w = (rs, pre', w1) \<Longrightarrow> \<forall>r\<in>set rs. r = Inr SUCCESS \<Longrightarrow>
   sequence_loop (pre @ rest) w =
     (case sequence_loop rest w1 of (r, rest', w2) \<Rightarrow> (r, pre' @ rest', w2))"
  by (induction pre arbitrary: w rs pre') (auto split: prod.splits sum.splits)

text \<open>
  Claim C1. \<^verbatim>\<open>Fallback.run\<close> evaluates its children in order. When the children before
  \<open>c\<close>, run one after the other, all return \<^verbatim>\<open>FAIL\<close> and \<open>c\<close> then returns
  \<^verbatim>\<open>SUCCESS\<close> or \<^verbatim>\<open>RUNNING\<close>, the fallback returns that status; the world is the one
  \<open>c\<close> left and the children after \<open>c\<close> are as they were, so none of them was
  evaluated. When all children return \<^verbatim>\<open>FAIL\<close> the fallback returns \<^verbatim>\<open>FAIL\<close>, and so
  does a fallback without children.
\<close>

theorem Fallback_run_first_non_FAIL:
  "(run_each pre w = (rs, pre', w1) \<and> (\<forall>r\<in>set rs. r = Inr FAIL) \<and>
      run c w1 = (Inr s, c', w2) \<and> (s = SUCCESS \<or> s = RUNNING)
     \<longrightarrow> run (Fallback (pre @ c # post)) w = (Inr s, Fallback (pre' @ c' # post), w2))
   \<and> (run_each cs w = (rs', cs', w') \<and> (\<forall>r\<in>set rs'. r = Inr FAIL)
     \<longrightarrow> run (Fallback cs) w = (Inr FAIL, Fallback cs', w'))
   \<and> run (Fallback []) w = (Inr FAIL, Fallback [], w)"
proof (intro conjI impI)
  assume h: "run_each pre w = (rs, pre', w1) \<and> (\<forall>r\<in>set rs. r = Inr FAIL) \<and>
      run c w1 = (Inr s, c', w2) \<and> (s = SUCCESS \<or> s = RUNNING)"
  then have "fallback_loop (c # post) w1 = (Inr s, c' # post, w2)"
    by auto
  with h show "run (Fallback (pre @ c # post)) w = (Inr s, Fallback (pre' @ c' # post), w2)"
    by (simp add: fallback_loop_skip [of pre w rs pre' w1])
next
  assume h: "run_each cs w = (rs', cs', w') \<and> (\<forall>r\<in>set rs'. r = Inr FAIL)"
  then show "run (Fallback cs) w = (Inr FAIL, Fallback cs', w')"
    using fallback_loop_skip [of cs w rs' cs' w' "[]"] by simp
next
  show "run (Fallback []) w = (Inr FAIL, Fallback [], w)" by simp
qed

text \<open>
  The first scenario of the specification, with one more action behind: the condition
  fails, the first action succeeds and is called once, the second action is never
  called and keeps its initial status. And a fallback whose children all fail.
\<close>

theorem Fallback_run_first_non_FAIL_witness:
  "run_each [Condition cond_false] [] = ([Inr FAIL], [Condition cond_false], [''cond_false''])
   \<and> run (Action RUNNING act_success) [''cond_false'']
       = (Inr SUCCESS, Action SUCCESS act_success, [''cond_false'', ''act_success''])
   \<and> run (Fallback [Condition cond_false, Action RUNNING act_success, Action RUNNING act_fail]) []
     = (Inr SUCCESS,
        Fallback [Condition cond_false, Action SUCCESS act_success, Action RUNNING act_fail],
        [''cond_false'', ''act_success''])
   \<and> run_each [Condition cond_false, Action RUNNING act_fail] []
     = ([Inr FAIL, Inr FAIL], [Condition cond_false, Action FAIL act_fail], [''cond_false'', ''act_fail''])
   \<and> run (Fallback [Condition cond_false, Action RUNNING act_fail]) []
     = (Inr FAIL, Fallback [Condition cond_false, Action FAIL act_fail],
        [''cond_false'', ''act_fail''])"
  using Fallback_run_first_non_FAIL
    [of "[Condition cond_false]" "[]" "[Inr FAIL]" "[Condition cond_false]" "[''cond_false'']"
        "Action RUNNING act_success" SUCCESS "Action SUCCESS act_success"
        "[''cond_false'', ''act_success'']" "[Action RUNNING act_fail]"
        "[Condition cond_false, Action RUNNING act_fail]" "[Inr FAIL, Inr FAIL]"
        "[Condition cond_false, Action FAIL act_fail]" "[''cond_false'', ''act_fail'']"]
  by (simp add: cond_false_def act_success_def act_fail_def)

text \<open>
  Claim C2. \<^verbatim>\<open>Sequence.run\<close> evaluates its children in order. When the children before
  \<open>c\<close>, run one after the other, all return \<^verbatim>\<open>SUCCESS\<close> and \<open>c\<close> then returns
  \<^verbatim>\<open>FAIL\<close> or \<^verbatim>\<open>RUNNING\<close>, the sequence returns that status; the world is the one
  \<open>c\<close> left and the children after \<open>c\<close> are as they were, so none of them was
  evaluated. When all children return \<^verbatim>\<open>SUCCESS\<close> the sequence returns \<^verbatim>\<open>SUCCESS\<close>,
  and so does a sequence without children.
\<close>

theorem Sequence_run_first_non_SUCCESS:
  "(run_each pre w = (rs, pre', w1) \<and> (\<forall>r\<in>set rs. r = Inr SUCCESS) \<and>
      run c w1 = (Inr s, c', w2) \<and> (s = FAIL \<or> s = RUNNING)
     \<longrightarrow> run (Sequence (pre @ c # post)) w = (Inr s, Sequence (pre' @ c' # post), w2))
   \<and> (run_each cs w = (rs', cs', w') \<and> (\<forall>r\<in>set rs'. r = Inr SUCCESS)
     \<longrightarrow> run (Sequence cs) w = (Inr SUCCESS, Sequence cs', w'))
   \<and> run (Sequence []) w = (Inr SUCCESS, Sequence [], w)"
proof (intro conjI impI)
  assume h: "run_each pre w = (rs, pre', w1) \<and> (\<forall>r\<in>set rs. r = Inr SUCCESS) \<and>
      run c w1 = (Inr s, c', w2) \<and> (s = FAIL \<or> s = RUNNING)"
  then have "sequence_loop (c # post) w1 = (Inr s, c' # post, w2)"
    by auto
  with h show "run (Sequence (pre @ c # post)) w = (Inr s, Sequence (pre' @ c' # post), w2)"
    by (simp add: sequence_loop_skip [of pre w rs pre' w1])
next
  assume h: "run_each cs w = (rs', cs', w') \<and> (\<forall>r\<in>set rs'. r = Inr SUCCESS)"
  then show "run (Sequence cs) w = (Inr SUCCESS, Sequence cs', w')"
    using sequence_loop_skip [of cs w rs' cs' w' "[]"] by simp
next
  show "run (Sequence []) w = (Inr SUCCESS, Sequence [], w)" by simp
qed

text \<open>
  The second scenario of the specification: the sequence fails at its second condition
  and the action behind it is never called. And a sequence whose children all succeed.
\<close>

theorem Sequence_run_first_non_SUCCESS_witness:
  "run_each [Condition cond_true] [] = ([Inr SUCCESS], [Condition cond_true], [''cond_true''])
   \<and> run (Condition cond_false) [''cond_true''] = (Inr FAIL, Condition cond_false, [''cond_true'', ''cond_false''])
   \<and> run (Sequence [Condition cond_true, Condition cond_false, Action RUNNING act_success]) []
     = (Inr FAIL, Sequence [Condition cond_true, Condition cond_false, Action RUNNING act_success],
        [''cond_true'', ''cond_false''])
   \<and> run_each [Condition cond_true, Action RUNNING act_success] []
     = ([Inr SUCCESS, Inr SUCCESS], [Condition cond_true, Action SUCCESS act_success],
        [''cond_true'', ''act_success''])
   \<and> run (Sequence [Condition cond_true, Action RUNNING act_success]) []
     = (Inr SUCCESS, Sequence [Condition cond_true, Action SUCCESS act_success],
        [''cond_true'', ''act_success''])"
  using Sequence_run_first_non_SUCCESS
    [of "[Condition cond_true]" "[]" "[Inr SUCCESS]" "[Condition cond_true]" "[''cond_true'']"
        "Condition cond_false" FAIL "Condition cond_false"
        "[''cond_true'', ''cond_false'']" "[Action RUNNING act_success]"
        "[Condition cond_true, Action RUNNING act_success]" "[Inr SUCCESS, Inr SUCCESS]"
        "[Condition cond_true, Action SUCCESS act_success]" "[''cond_true'', ''act_success'']"]
  by (simp add: cond_false_def cond_true_def act_success_def)

text \<open>
  The third scenario of the specification: the first action is still running, the
  sequence reports that and the second action is never called. And composites fresh
  from their constructors: no children, so \<^verbatim>\<open>FAIL\<close> for the fallback and
  \<^verbatim>\<open>SUCCESS\<close> for the sequence, with the world untouched.
\<close>

lemma scenario_sequence_running:
  "run (Sequence [Action_init act_running, Action_init act_success]) []
     = (Inr RUNNING, Sequence [Action RUNNING act_running, Action RUNNING act_success],
        [''act_running''])"
  by (simp add: Action_init_def act_running_def)

lemma run_fresh_composites:
  "run Fallback_init w = (Inr FAIL, Fallback_init, w)"
  "run Sequence_init w = (Inr SUCCESS, Sequence_init, w)"
  "run (Condition_init p) w = run (Condition p) w"
  by (simp_all add: Fallback_init_def Sequence_init_def Condition_init_def)

section \<open>The leaves\<close>

text \<open>
  Claim C4. \<^verbatim>\<open>Condition.run\<close> never returns \<^verbatim>\<open>RUNNING\<close> and calls the predicate
  exactly once (the log of the run has one entry, and the world afterwards is the one
  that single call left). When the predicate returns a value, the result is
  \<^verbatim>\<open>SUCCESS\<close> if the value is truthy and \<^verbatim>\<open>FAIL\<close> if it is not.
\<close>

theorem Condition_run_truthy:
  "fst (run (Condition p) w) \<noteq> Inr RUNNING
   \<and> length (call_log (Condition p) w) = 1
   \<and> (p w = (Inr v, w') \<longrightarrow>
         run (Condition p) w = (Inr (if truthy v then SUCCESS else FAIL), Condition p, w')
         \<and> (fst (run (Condition p) w) = Inr SUCCESS \<longleftrightarrow> truthy v))"
  by (cases "p w") (auto simp: call_log_def split: sum.splits)

text \<open>
A predicate that returns 7, a truthy value that is not a boolean.
\<close>

theorem Condition_run_truthy_witness:
  "cond_seven [] = (Inr (PyInt 7), [''cond_seven''])
   \<and> run (Condition cond_seven) [] = (Inr SUCCESS, Condition cond_seven, [''cond_seven''])
   \<and> call_log (Condition cond_seven) [] = [Returned]"
  using Condition_run_truthy [of cond_seven "[]" "PyInt 7" "[''cond_seven'']"]
  by (simp add: cond_seven_def call_log_def)

text \<open>
  Claim C5. A new action holds \<^verbatim>\<open>RUNNING\<close> as its last status. A call of
  \<^verbatim>\<open>Action.run\<close> calls the operation exactly once; when the operation returns a
  status, that status is stored and returned as it is. Two calls in a row, on an
  operation that returns \<open>s1\<close> and then \<open>s2\<close>, return \<open>s1\<close> and then \<open>s2\<close>, and
  the status stored after the second call is \<open>s2\<close>.
\<close>

theorem Action_run_stores_status:
  "Action_init f = Action RUNNING f
   \<and> length (call_log (Action st f) w) = 1
   \<and> (f w = (Inr s, w') \<longrightarrow> run (Action st f) w = (Inr s, Action s f, w'))
   \<and> (f w = (Inr s1, w1) \<and> f w1 = (Inr s2, w2) \<longrightarrow>
         run (Action_init f) w = (Inr s1, Action s1 f, w1)
         \<and> run (Action s1 f) w1 = (Inr s2, Action s2 f, w2))"
  by (cases "f w") (auto simp: call_log_def Action_init_def split: sum.splits)

text \<open>
An operation that returns \<^verbatim>\<open>RUNNING\<close> at its first call and \<^verbatim>\<open>SUCCESS\<close> from then on.
\<close>

theorem Action_run_stores_status_witness:
  "act_progress [] = (Inr RUNNING, [''act_progress''])
   \<and> act_progress [''act_progress''] = (Inr SUCCESS, [''act_progress'', ''act_progress''])
   \<and> run (Action_init act_progress) [] = (Inr RUNNING, Action RUNNING act_progress, [''act_progress''])
   \<and> run (Action RUNNING act_progress) [''act_progress'']
       = (Inr SUCCESS, Action SUCCESS act_progress, [''act_progress'', ''act_progress''])"
  using Action_run_stores_status
    [of act_progress RUNNING "[]" RUNNING "[''act_progress'']" RUNNING "[''act_progress'']"
        SUCCESS "[''act_progress'', ''act_progress'']"]
  by (simp add: act_progress_def Action_init_def)

text \<open>
  Claim C10. When the operation of an action raises, \<^verbatim>\<open>Action.run\<close> ends in that
  exception and the stored status is the one from before the call: the assignment to
  \<^verbatim>\<open>_status\<close> comes after the call has returned.
\<close>

theorem Action_run_raise_keeps_status:
  "f w = (Inl e, w') \<Longrightarrow> run (Action st f) w = (Inl e, Action st f, w')"
  by simp

text \<open>
An action that had stored \<^verbatim>\<open>FAIL\<close> and whose operation raises.
\<close>

theorem Action_run_raise_keeps_status_witness:
  "act_raise [''earlier''] = (Inl (UserError ''crash''), [''earlier'', ''act_raise''])
   \<and> run (Action FAIL act_raise) [''earlier'']
       = (Inl (UserError ''crash''), Action FAIL act_raise, [''earlier'', ''act_raise''])"
  using Action_run_raise_keeps_status
    [of act_raise "[''earlier'']" "UserError ''crash''" "[''earlier'', ''act_raise'']" FAIL]
  by (simp add: act_raise_def)

section \<open>Exceptions of the callables\<close>

text \<open>
  Running the instrumented tree is running the tree: the result, the node left behind
  and the world are the same, and the log gains the calls of the run, well ended for
  its result. The three statements go together, as the three functions do.
\<close>

lemma well_ended_append:
  "list_all (\<lambda>x. x = Returned) evs \<Longrightarrow> well_ended r evs2 \<Longrightarrow> well_ended r (evs @ evs2)"
  by (cases r) (auto simp: butlast_append)

lemma inst_ok_trans:
  "inst_ok (Inr s) l l1 \<Longrightarrow> inst_ok r l1 l2 \<Longrightarrow> inst_ok r l l2"
  unfolding inst_ok_def using well_ended_append by fastforce

lemma run_instrument_aux:
  "\<forall>l. \<exists>l'. run (instrument t) (w, l)
       = (fst (run t w), instrument (fst (snd (run t w))), snd (snd (run t w)), l')
     \<and> inst_ok (fst (run t w)) l l'"
  "\<forall>l. \<exists>l'. fallback_loop (map instrument cs) (w, l)
       = (fst (fallback_loop cs w), map instrument (fst (snd (fallback_loop cs w))),
          snd (snd (fallback_loop cs w)), l')
     \<and> inst_ok (fst (fallback_loop cs w)) l l'"
  "\<forall>l. \<exists>l'. sequence_loop (map instrument cs) (w, l)
       = (fst (sequence_loop cs w), map instrument (fst (snd (sequence_loop cs w))),
          snd (snd (sequence_loop cs w)), l')
     \<and> inst_ok (fst (sequence_loop cs w)) l l'"
proof (induction t w and cs w and cs w rule: run_fallback_loop_sequence_loop.induct)
  case (1 cs w)
  show ?case
  proof
    fix l
    from 1 obtain l' where "fallback_loop (map instrument cs) (w, l)
       = (fst (fallback_loop cs w), map instrument (fst (snd (fallback_loop cs w))),
          snd (snd (fallback_loop cs w)), l') \<and> inst_ok (fst (fallback_loop cs w)) l l'"
      by blast
    then show "\<exists>l'. run (instrument (Fallback cs)) (w, l)
       = (fst (run (Fallback cs) w), instrument (fst (snd (run (Fallback cs) w))),
          snd (snd (run (Fallback cs) w)), l') \<and> inst_ok (fst (run (Fallback cs) w)) l l'"
      by (auto split: prod.splits)
  qed
next
  case (2 cs w)
  show ?case
  proof
    fix l
    from 2 obtain l' where "sequence_loop (map instrument cs) (w, l)
       = (fst (sequence_loop cs w), map instrument (fst (snd (sequence_loop cs w))),
          snd (snd (sequence_loop cs w)), l') \<and> inst_ok (fst (sequence_loop cs w)) l l'"
      by blast
    then show "\<exists>l'. run (instrument (Sequence cs)) (w, l)
       = (fst (run (Sequence cs) w), instrument (fst (snd (run (Sequence cs) w))),
          snd (snd (run (Sequence cs) w)), l') \<and> inst_ok (fst (run (Sequence cs) w)) l l'"
      by (auto split: prod.splits)
  qed
next
  case (3 p w)
  then show ?case by (auto simp: inst_ok_def split: prod.splits sum.splits)
next
  case (4 st f w)
  then show ?case by (auto simp: inst_ok_def split: prod.splits sum.splits)
next
  case (5 w)
  then show ?case by (simp add: inst_ok_def)
next
  case (6 child rest w)
  show ?case
  proof
    fix l
    obtain r c' w' where rc: "run child w = (r, c', w')" by (cases "run child w")
    from 6(1) obtain l1 where l1: "run (instrument child) (w, l) = (r, instrument c', w', l1)"
      "inst_ok r l l1" using rc by fastforce
    show "\<exists>l'. fallback_loop (map instrument (child # rest)) (w, l)
       = (fst (fallback_loop (child # rest) w),
          map instrument (fst (snd (fallback_loop (child # rest) w))),
          snd (snd (fallback_loop (child # rest) w)), l')
       \<and> inst_ok (fst (fallback_loop (child # rest) w)) l l'"
    proof (cases "r = Inr FAIL")
      case False
      then show ?thesis using rc l1 
        by (cases r; cases "projr r") auto
    next
      case True
      from 6(2)[OF rc[symmetric]] True
      obtain l2 where l2: "fallback_loop (map instrument rest) (w', l1)
       = (fst (fallback_loop rest w'), map instrument (fst (snd (fallback_loop rest w'))),
          snd (snd (fallback_loop rest w')), l2)" "inst_ok (fst (fallback_loop rest w')) l1 l2"
        by fastforce
      have "inst_ok (fst (fallback_loop rest w')) l l2"
        using inst_ok_trans l1(2) l2(2) True by blast
      then show ?thesis using rc l1 l2 True by (auto split: prod.splits)
    qed
  qed
next
  case (7 w)
  then show ?case by (simp add: inst_ok_def)
next
  case (8 child rest w)
  show ?case
  proof
    fix l
    obtain r c' w' where rc: "run child w = (r, c', w')" by (cases "run child w")
    from 8(1) obtain l1 where l1: "run (instrument child) (w, l) = (r, instrument c', w', l1)"
      "inst_ok r l l1" using rc by fastforce
    show "\<exists>l'. sequence_loop (map instrument (child # rest)) (w, l)
       = (fst (sequence_loop (child # rest) w),
          map instrument (fst (snd (sequence_loop (child # rest) w))),
          snd (snd (sequence_loop (child # rest) w)), l')
       \<and> inst_ok (fst (sequence_loop (child # rest) w)) l l'"
    proof (cases "r = Inr SUCCESS")
      case False
      then show ?thesis using rc l1 
        by (cases r; cases "projr r") auto
    next
      case True
      from 8(2)[OF rc[symmetric]] True
      obtain l2 where l2: "sequence_loop (map instrument rest) (w', l1)
       = (fst (sequence_loop rest w'), map instrument (fst (snd (sequence_loop rest w'))),
          snd (snd (sequence_loop rest w')), l2)" "inst_ok (fst (sequence_loop rest w')) l1 l2"
        by fastforce
      have "inst_ok (fst (sequence_loop rest w')) l l2"
        using inst_ok_trans l1(2) l2(2) True by blast
      then show ?thesis using rc l1 l2 True by (auto split: prod.splits)
    qed
  qed
qed

lemma in_set_butlast_or_last:
  "x \<in> set xs \<Longrightarrow> xs \<noteq> [] \<Longrightarrow> x \<in> set (butlast xs) \<or> x = last xs"
  by (induction xs) auto

text \<open>
  Claim C7. If any callable called during \<open>run t w\<close> raises \<open>e\<close>, then the run of
  the root ends in exactly \<open>e\<close>, and that call is the last call of the run: every call
  before it returned, and nothing is called again or instead afterwards. Conversely, an
  exception the run of the root ends in is the one the last callable called has raised.
  No node in between catches, replaces or retries.
\<close>

theorem run_propagates_callable_exceptions:
  "(Raised e \<in> set (call_log t w) \<longrightarrow>
      fst (run t w) = Inl e \<and> last (call_log t w) = Raised e
      \<and> list_all (\<lambda>x. x = Returned) (butlast (call_log t w)))
   \<and> (fst (run t w) = Inl e \<longrightarrow>
      call_log t w \<noteq> [] \<and> last (call_log t w) = Raised e
      \<and> list_all (\<lambda>x. x = Returned) (butlast (call_log t w)))"
proof -
  from run_instrument_aux(1) [of t w] obtain l' where
    l': "run (instrument t) (w, []) = (fst (run t w), instrument (fst (snd (run t w))), snd (snd (run t w)), l')"
    "inst_ok (fst (run t w)) [] l'" by blast
  then have cl: "call_log t w = l'" by (simp add: call_log_def)
  from l'(2) have we: "well_ended (fst (run t w)) (call_log t w)"
    by (simp add: inst_ok_def cl)
  show ?thesis
  proof (cases "fst (run t w)")
    case (Inl e')
    with we have ne: "call_log t w \<noteq> []" and la: "last (call_log t w) = Raised e'" 
      and bl: "list_all (\<lambda>x. x = Returned) (butlast (call_log t w))" by auto
    have "Raised e \<in> set (call_log t w) \<Longrightarrow> e = e'"
    proof -
      assume a: "Raised e \<in> set (call_log t w)"
      have "Raised e \<in> set (butlast (call_log t w)) \<or> Raised e = last (call_log t w)"
        using a ne by (rule in_set_butlast_or_last)
      with la bl show "e = e'" by (auto simp: list_all_iff)
    qed
    with Inl ne la bl show ?thesis by auto
  next
    case (Inr s)
    with we show ?thesis by (auto simp: list_all_iff)
  qed
qed

text \<open>
  A predicate raises two levels below the root, after one condition has returned; the
  action beside it and the action behind the inner fallback are never called.
\<close>

theorem run_propagates_callable_exceptions_witness:
  "call_log (Sequence [Condition cond_true,
                       Fallback [Condition cond_raise, Action RUNNING act_success],
                       Action RUNNING act_fail]) []
     = [Returned, Raised (UserError ''boom'')]
   \<and> Raised (UserError ''boom'')
       \<in> set (call_log (Sequence [Condition cond_true,
                       Fallback [Condition cond_raise, Action RUNNING act_success],
                       Action RUNNING act_fail]) [])
   \<and> fst (run (Sequence [Condition cond_true,
                       Fallback [Condition cond_raise, Action RUNNING act_success],
                       Action RUNNING act_fail]) []) = Inl (UserError ''boom'')"
  using run_propagates_callable_exceptions
    [of "UserError ''boom''"
        "Sequence [Condition cond_true,
                   Fallback [Condition cond_raise, Action RUNNING act_success],
                   Action RUNNING act_fail]" "[]"]
  by (simp add: call_log_def cond_true_def cond_raise_def act_success_def act_fail_def)

section \<open>The child list\<close>

text \<open>
  A run changes nothing in a tree but the stored status of its actions.
\<close>

lemma forget_status_run_aux:
  "forget_status (fst (snd (run t w))) = forget_status t"
  "map forget_status (fst (snd (fallback_loop cs w))) = map forget_status cs"
  "map forget_status (fst (snd (sequence_loop cs w))) = map forget_status cs"
proof (induction t w and cs w and cs w rule: run_fallback_loop_sequence_loop.induct)
  case (1 cs w)
  then show ?case by (cases "fallback_loop cs w") auto
next
  case (2 cs w)
  then show ?case by (cases "sequence_loop cs w") auto
next
  case (3 p w)
  then show ?case by (simp split: prod.splits sum.splits)
next
  case (4 st f w)
  then show ?case by (simp split: prod.splits sum.splits)
next
  case (5 w)
  then show ?case by simp
next
  case (6 child rest w)
  then show ?case by (auto split: prod.splits sum.splits)
next
  case (7 w)
  then show ?case by simp
next
  case (8 child rest w)
  then show ?case by (auto split: prod.splits sum.splits)
qed

text \<open>
  Claim C8. A call of \<^verbatim>\<open>run\<close> on a fallback or a sequence leaves a node of the same
  class with a child list of the same length, holding the same children in the same
  order (each one the child it was, up to the status its actions have stored). The
  callables act on the world only, which is the proviso that they do not change the
  tree themselves.
\<close>

theorem run_keeps_child_list:
  "is_composite t \<Longrightarrow> run t w = (r, t', w') \<Longrightarrow>
     same_class t' t
     \<and> length (children t') = length (children t)
     \<and> map forget_status (children t') = map forget_status (children t)"
proof -
  assume c: "is_composite t" and r: "run t w = (r, t', w')"
  have f: "forget_status t' = forget_status t"
    using forget_status_run_aux(1) [of t w] r by simp
  from c f have "same_class t' t \<and> map forget_status (children t') = map forget_status (children t)"
    by (cases t; cases t') auto
  moreover from this have "length (children t') = length (children t)"
    using map_eq_imp_length_eq by blast
  ultimately show ?thesis by simp
qed

text \<open>
A fallback whose two actions are both run: their stored status changes, the list does not.
\<close>

theorem run_keeps_child_list_witness:
  "is_composite (Fallback [Condition cond_false, Action RUNNING act_fail, Action RUNNING act_success])
   \<and> run (Fallback [Condition cond_false, Action RUNNING act_fail, Action RUNNING act_success]) []
      = (Inr SUCCESS, Fallback [Condition cond_false, Action FAIL act_fail, Action SUCCESS act_success],
         [''cond_false'', ''act_fail'', ''act_success''])
   \<and> length (children (Fallback [Condition cond_false, Action FAIL act_fail, Action SUCCESS act_success]))
      = length (children (Fallback [Condition cond_false, Action RUNNING act_fail, Action RUNNING act_success]))"
  using run_keeps_child_list
    [of "Fallback [Condition cond_false, Action RUNNING act_fail, Action RUNNING act_success]" "[]"
        "Inr SUCCESS" "Fallback [Condition cond_false, Action FAIL act_fail, Action SUCCESS act_success]"
        "[''cond_false'', ''act_fail'', ''act_success'']"]
  by (simp add: cond_false_def act_fail_def act_success_def)

section \<open>Adding and inserting children\<close>

text \<open>
  What \<^verbatim>\<open>list.insert\<close> does with an index that fits the machine type and with one that
  does not, and what the two methods of a composite make of it.
\<close>

lemma list_insert_Inr:
  "PY_SSIZE_T_MIN \<le> index \<Longrightarrow> index \<le> PY_SSIZE_T_MAX \<Longrightarrow>
   list_insert xs index x =
     Inr (take (nat (if int (length xs) < index then int (length xs)
                     else if index < 0 then max 0 (int (length xs) + index) else index)) xs
          @ x # drop (nat (if int (length xs) < index then int (length xs)
                     else if index < 0 then max 0 (int (length xs) + index) else index)) xs)"
  by (auto simp: list_insert_def Let_def max_def add.commute)

lemma list_insert_Inl:
  "index < PY_SSIZE_T_MIN \<or> PY_SSIZE_T_MAX < index \<Longrightarrow> list_insert xs index x = Inl OverflowError"
  by (simp add: list_insert_def)

lemma insert_child_composite:
  "is_composite self \<Longrightarrow> list_insert (children self) index node = Inr cs' \<Longrightarrow>
   \<exists>self'. insert_child self index node = (Inr self', self') \<and> same_class self' self
      \<and> children self' = cs'"
  by (cases self) (auto simp: Let_def)

lemma insert_child_composite_fail:
  "is_composite self \<Longrightarrow> list_insert (children self) index node = Inl e \<Longrightarrow>
   insert_child self index node = (Inl e, self)"
  by (cases self) auto

lemma add_child_composite:
  "is_composite self \<Longrightarrow>
   \<exists>self'. add_child self node = (Inr self', self') \<and> same_class self' self
      \<and> children self' = children self @ [node]"
  by (cases self) (auto simp: Let_def list_append_def)

lemma nth_insert_at:
  "k \<le> length xs \<Longrightarrow>
   length (take k xs @ x # drop k xs) = Suc (length xs)
   \<and> (take k xs @ x # drop k xs) ! k = x
   \<and> (\<forall>j<k. (take k xs @ x # drop k xs) ! j = xs ! j)
   \<and> (\<forall>j. k \<le> j \<and> j < length xs \<longrightarrow> (take k xs @ x # drop k xs) ! Suc j = xs ! j)"
  by (auto simp: nth_append min_def Suc_diff_le)

text \<open>
  Claim C6. \<^verbatim>\<open>add_child\<close> on a composite returns the composite, with the node put
  after all its children. \<^verbatim>\<open>insert_child\<close> with an index from 0 to the number of
  children returns the composite, with the node at that index, the children before the
  index where they were and the children from the index on one place later. (A list of
  the interpreter holds at most \<open>PY_SSIZE_T_MAX\<close> elements.) The two examples of the
  specification: \<^verbatim>\<open>[A, B]\<close> with \<^verbatim>\<open>insert_child(0, C)\<close> is \<^verbatim>\<open>[C, A, B]\<close>, and
  with \<^verbatim>\<open>add_child(C)\<close> is \<^verbatim>\<open>[A, B, C]\<close>.
\<close>

theorem add_child_insert_child_order:
  "(is_composite self \<longrightarrow>
      (\<exists>self'. add_child self node = (Inr self', self') \<and> same_class self' self
          \<and> children self' = children self @ [node]))
   \<and> (is_composite self \<and> 0 \<le> index \<and> index \<le> int (length (children self))
        \<and> int (length (children self)) \<le> PY_SSIZE_T_MAX \<longrightarrow>
      (\<exists>self'. insert_child self index node = (Inr self', self') \<and> same_class self' self
          \<and> children self' = take (nat index) (children self) @ node # drop (nat index) (children self)
          \<and> length (children self') = Suc (length (children self))
          \<and> children self' ! nat index = node
          \<and> (\<forall>j<nat index. children self' ! j = children self ! j)
          \<and> (\<forall>j. nat index \<le> j \<and> j < length (children self) \<longrightarrow>
                children self' ! Suc j = children self ! j)))
   \<and> insert_child (Fallback [a, b]) 0 c = (Inr (Fallback [c, a, b]), Fallback [c, a, b])
   \<and> add_child (Fallback [a, b]) c = (Inr (Fallback [a, b, c]), Fallback [a, b, c])"
proof (intro conjI impI)
  assume "is_composite self"
  then show "\<exists>self'. add_child self node = (Inr self', self') \<and> same_class self' self
          \<and> children self' = children self @ [node]"
    by (rule add_child_composite)
next
  assume h: "is_composite self \<and> 0 \<le> index \<and> index \<le> int (length (children self))
        \<and> int (length (children self)) \<le> PY_SSIZE_T_MAX"
  then have "list_insert (children self) index node
      = Inr (take (nat index) (children self) @ node # drop (nat index) (children self))"
    using list_insert_Inr [of index "children self" node] by (simp add: PY_SSIZE_T_MIN_def PY_SSIZE_T_MAX_def)
  with h obtain self' where s: "insert_child self index node = (Inr self', self')"
     "same_class self' self"
     "children self' = take (nat index) (children self) @ node # drop (nat index) (children self)"
    using insert_child_composite by blast
  from h have k: "nat index \<le> length (children self)" by linarith
  from nth_insert_at [OF k, of node] s
  show "\<exists>self'. insert_child self index node = (Inr self', self') \<and> same_class self' self
          \<and> children self' = take (nat index) (children self) @ node # drop (nat index) (children self)
          \<and> length (children self') = Suc (length (children self))
          \<and> children self' ! nat index = node
          \<and> (\<forall>j<nat index. children self' ! j = children self ! j)
          \<and> (\<forall>j. nat index \<le> j \<and> j < length (children self) \<longrightarrow>
                children self' ! Suc j = children self ! j)"
    by simp
next
  show "insert_child (Fallback [a, b]) 0 c = (Inr (Fallback [c, a, b]), Fallback [c, a, b])"
    by (simp add: list_insert_def PY_SSIZE_T_MIN_def PY_SSIZE_T_MAX_def Let_def)
next
  show "add_child (Fallback [a, b]) c = (Inr (Fallback [a, b, c]), Fallback [a, b, c])"
    by (simp add: list_append_def Let_def)
qed

text \<open>
Appending to, and inserting in the middle of, a sequence of two children.
\<close>

theorem add_child_insert_child_order_witness:
  "is_composite (Sequence [node_A, node_B]) \<and> (0::int) \<le> 1
   \<and> (1::int) \<le> int (length (children (Sequence [node_A, node_B])))
   \<and> int (length (children (Sequence [node_A, node_B]))) \<le> PY_SSIZE_T_MAX
   \<and> add_child (Sequence [node_A, node_B]) node_C
       = (Inr (Sequence [node_A, node_B, node_C]), Sequence [node_A, node_B, node_C])
   \<and> insert_child (Sequence [node_A, node_B]) 1 node_C
       = (Inr (Sequence [node_A, node_C, node_B]), Sequence [node_A, node_C, node_B])"
  using add_child_insert_child_order [of "Sequence [node_A, node_B]" node_C 1]
  by (simp add: PY_SSIZE_T_MAX_def PY_SSIZE_T_MIN_def list_insert_def list_append_def Let_def)

text \<open>
  Claim C3 says that an index outside 0 .. length makes \<^verbatim>\<open>insert_child\<close> fail with an
  index error and leave the children as they were. It does not: index 5 on two children
  succeeds and puts the node last.
\<close>

theorem insert_child_index_error_counterexample:
  "\<not> (0 \<le> (5::int) \<and> 5 \<le> int (length (children (Fallback [node_A, node_B]))))
   \<and> insert_child (Fallback [node_A, node_B]) 5 node_C
       = (Inr (Fallback [node_A, node_B, node_C]), Fallback [node_A, node_B, node_C])
   \<and> fst (insert_child (Fallback [node_A, node_B]) 5 node_C) \<noteq> Inl IndexError
   \<and> children (snd (insert_child (Fallback [node_A, node_B]) 5 node_C)) \<noteq> [node_A, node_B]"
  by (simp add: PY_SSIZE_T_MAX_def PY_SSIZE_T_MIN_def list_insert_def Let_def)

text \<open>
  Claim C3, amended. For an index outside 0 .. length, \<^verbatim>\<open>insert_child\<close> never ends in
  an index error. If the index fits the machine type the call succeeds and returns the
  composite with one child more: the node is last when the index is beyond the length,
  and at position max(0, length + index) when the index is negative. If the index does
  not fit, the call ends in \<^verbatim>\<open>OverflowError\<close> and the child list is as it was.
\<close>

theorem insert_child_index_outside_child_list:
  assumes "is_composite self"
    and "index < 0 \<or> int (length (children self)) < index"
  shows "fst (insert_child self index node) \<noteq> Inl IndexError
    \<and> (PY_SSIZE_T_MIN \<le> index \<and> index \<le> PY_SSIZE_T_MAX \<longrightarrow>
         (\<exists>self'. insert_child self index node = (Inr self', self') \<and> same_class self' self
            \<and> length (children self') = Suc (length (children self))
            \<and> children self' =
                (if index < 0
                 then take (nat (max 0 (int (length (children self)) + index))) (children self)
                      @ node # drop (nat (max 0 (int (length (children self)) + index))) (children self)
                 else children self @ [node])))
    \<and> (index < PY_SSIZE_T_MIN \<or> PY_SSIZE_T_MAX < index \<longrightarrow>
         insert_child self index node = (Inl OverflowError, self))"
proof (cases "PY_SSIZE_T_MIN \<le> index \<and> index \<le> PY_SSIZE_T_MAX")
  case True
  from insert_child_composite [OF assms(1) list_insert_Inr, of index node] True
  obtain self' where s: "insert_child self index node = (Inr self', self')" "same_class self' self"
    "children self' = take (nat (if int (length (children self)) < index then int (length (children self))
                     else if index < 0 then max 0 (int (length (children self)) + index) else index)) (children self)
          @ node # drop (nat (if int (length (children self)) < index then int (length (children self))
                     else if index < 0 then max 0 (int (length (children self)) + index) else index)) (children self)"
    by blast
  from s(3) assms(2) have c: "children self' =
                (if index < 0
                 then take (nat (max 0 (int (length (children self)) + index))) (children self)
                      @ node # drop (nat (max 0 (int (length (children self)) + index))) (children self)
                 else children self @ [node])"
    by auto
  then have "length (children self') = Suc (length (children self))"
    by (auto simp: max_def)
  with s(1,2) c True show ?thesis by auto
next
  case False
  then have "list_insert (children self) index node = Inl OverflowError"
    by (intro list_insert_Inl) linarith
  from insert_child_composite_fail [OF assms(1) this] False show ?thesis by auto
qed

text \<open>
Index -1 on two children puts the node before the last child.
\<close>

theorem insert_child_index_outside_child_list_witness:
  "is_composite (Fallback [node_A, node_B])
   \<and> (-1 < (0::int) \<or> int (length (children (Fallback [node_A, node_B]))) < -1)
   \<and> insert_child (Fallback [node_A, node_B]) (-1) node_C
       = (Inr (Fallback [node_A, node_C, node_B]), Fallback [node_A, node_C, node_B])"
  using insert_child_index_outside_child_list [of "Fallback [node_A, node_B]" "-1" node_C]
  by (simp add: PY_SSIZE_T_MAX_def PY_SSIZE_T_MIN_def list_insert_def Let_def)

text \<open>
  Claim C9 says that \<^verbatim>\<open>insert_child\<close> never raises, for every integer index. It does
  raise for an index that does not fit the machine type: with index \<open>2 ^ 63\<close> the call
  ends in \<^verbatim>\<open>OverflowError\<close>.
\<close>

theorem insert_child_never_raises_counterexample:
  "insert_child (Fallback [node_A, node_B]) (2 ^ 63) node_C
     = (Inl OverflowError, Fallback [node_A, node_B])"
  by (simp add: PY_SSIZE_T_MAX_def PY_SSIZE_T_MIN_def list_insert_def Let_def)

text \<open>
  Claim C9, amended. For every index that fits the machine type (from \<open>- 2 ^ 63\<close> to
  \<open>2 ^ 63 - 1\<close>), \<^verbatim>\<open>insert_child\<close> on a composite does not raise and returns the
  composite. An index beyond the number of children puts the node last; an index from 0
  to the number of children puts it at that index; a negative index counts from the
  end, and puts the node first when it reaches past the front.
\<close>

theorem insert_child_in_machine_range:
  assumes "is_composite self" and "PY_SSIZE_T_MIN \<le> index" and "index \<le> PY_SSIZE_T_MAX"
  shows "\<exists>self'. insert_child self index node = (Inr self', self') \<and> same_class self' self
     \<and> (int (length (children self)) < index \<longrightarrow> children self' = children self @ [node])
     \<and> (0 \<le> index \<and> index \<le> int (length (children self)) \<longrightarrow>
          children self' = take (nat index) (children self) @ node # drop (nat index) (children self))
     \<and> (index < 0 \<and> 0 \<le> int (length (children self)) + index \<longrightarrow>
          children self' = take (nat (int (length (children self)) + index)) (children self)
                           @ node # drop (nat (int (length (children self)) + index)) (children self))
     \<and> (int (length (children self)) + index < 0 \<longrightarrow> children self' = node # children self)"
proof -
  from insert_child_composite [OF assms(1) list_insert_Inr [OF assms(2,3)]]
  obtain self' where s: "insert_child self index node = (Inr self', self')" "same_class self' self"
    "children self' = take (nat (if int (length (children self)) < index then int (length (children self))
                     else if index < 0 then max 0 (int (length (children self)) + index) else index)) (children self)
          @ node # drop (nat (if int (length (children self)) < index then int (length (children self))
                     else if index < 0 then max 0 (int (length (children self)) + index) else index)) (children self)"
    by blast
  from s(3) have "(int (length (children self)) < index \<longrightarrow> children self' = children self @ [node])
     \<and> (0 \<le> index \<and> index \<le> int (length (children self)) \<longrightarrow>
          children self' = take (nat index) (children self) @ node # drop (nat index) (children self))
     \<and> (index < 0 \<and> 0 \<le> int (length (children self)) + index \<longrightarrow>
          children self' = take (nat (int (length (children self)) + index)) (children self)
                           @ node # drop (nat (int (length (children self)) + index)) (children self))
     \<and> (int (length (children self)) + index < 0 \<longrightarrow> children self' = node # children self)"
    by (auto simp: max_def)
  with s(1,2) show ?thesis by blast
qed

text \<open>
Index -7 on two children reaches past the front: the node comes first.
\<close>

theorem insert_child_in_machine_range_witness:
  "is_composite (Fallback [node_A, node_B]) \<and> PY_SSIZE_T_MIN \<le> -7 \<and> -7 \<le> PY_SSIZE_T_MAX
   \<and> insert_child (Fallback [node_A, node_B]) (-7) node_C
       = (Inr (Fallback [node_C, node_A, node_B]), Fallback [node_C, node_A, node_B])"
  using insert_child_in_machine_range [of "Fallback [node_A, node_B]" "-7" node_C]
  by (simp add: PY_SSIZE_T_MAX_def PY_SSIZE_T_MIN_def list_insert_def Let_def)

end
